theory Spec2Isabelle
  imports Complex_Main
begin

section \<open>Topography cross-section: elevation sampling along a rasterized line\<close>

text \<open>
  The program (\<^verbatim>\<open>Topo_Xsection.py\<close>) reads an elevation raster, maps two geographic
  points to pixel indices, draws the discrete line between the two pixels, reads the
  elevation array along that line and writes the profile as a polyline.

  Exceptions are values: a computation that may raise returns \<open>py_exception + 'a\<close>,
  with \<open>Inl\<close> for the exception.
\<close>

datatype py_exception =
    ValueError
  | OverflowError
  | IndexError
  | CollaboratorError string

subsection \<open>The elevation array and integer-array indexing\<close>

text \<open>
  \<^verbatim>\<open>dem_data\<close> is a two-dimensional array of shape \<open>(nrows, ncols)\<close>; \<open>item a i j\<close> is the
  sample at row \<open>i\<close>, column \<open>j\<close> and is read only for \<open>i < nrows a\<close> and \<open>j < ncols a\<close>.
\<close>

record 'a ndarray2 =
  nrows :: nat
  ncols :: nat
  item :: "nat \<Rightarrow> nat \<Rightarrow> 'a"

text \<open>
  An integer index \<open>i\<close> into an axis of length \<open>n\<close>: an index in \<open>[-n, 0)\<close> counts from
  the end of the axis, an index outside \<open>[-n, n)\<close> raises \<^verbatim>\<open>IndexError\<close>.
\<close>

definition norm_index :: "nat \<Rightarrow> int \<Rightarrow> py_exception + nat" where
  "norm_index n i =
     (if i < - int n \<or> int n \<le> i then Inl IndexError
      else if i < 0 then Inr (nat (i + int n))
      else Inr (nat i))"

text \<open>
  The two index arrays of \<^verbatim>\<open>a[rr, cc]\<close> are broadcast against each other: equal
  lengths pair up elementwise, an array of length one is repeated, anything else raises
  \<^verbatim>\<open>IndexError\<close> (shape mismatch).
\<close>

definition broadcast2 :: "int list \<Rightarrow> int list \<Rightarrow> py_exception + (int \<times> int) list" where
  "broadcast2 rr cc =
     (if length rr = length cc then Inr (zip rr cc)
      else if length rr = 1 then Inr (map (\<lambda>c. (hd rr, c)) cc)
      else if length cc = 1 then Inr (map (\<lambda>r. (r, hd cc)) rr)
      else Inl IndexError)"

fun take_points :: "'a ndarray2 \<Rightarrow> (int \<times> int) list \<Rightarrow> py_exception + 'a list" where
  "take_points a [] = Inr []"
| "take_points a ((r, c) # ps) =
     (case norm_index (nrows a) r of
        Inl e \<Rightarrow> Inl e
      | Inr i \<Rightarrow>
          (case norm_index (ncols a) c of
             Inl e \<Rightarrow> Inl e
           | Inr j \<Rightarrow>
               (case take_points a ps of
                  Inl e \<Rightarrow> Inl e
                | Inr vs \<Rightarrow> Inr (item a i j # vs))))"

text \<open>\<^verbatim>\<open>dem_data[rr, cc]\<close>\<close>

definition getitem2 :: "'a ndarray2 \<Rightarrow> int list \<Rightarrow> int list \<Rightarrow> py_exception + 'a list" where
  "getitem2 a rr cc =
     (case broadcast2 rr cc of
        Inl e \<Rightarrow> Inl e
      | Inr ps \<Rightarrow> take_points a ps)"

subsection \<open>The export points\<close>

text \<open>
  \<^verbatim>\<open>points = [(i, elevation) for i, elevation in enumerate(elevation_values)]\<close>
\<close>

fun enumerate_from :: "nat \<Rightarrow> 'a list \<Rightarrow> (nat \<times> 'a) list" where
  "enumerate_from i [] = []"
| "enumerate_from i (x # xs) = (i, x) # enumerate_from (Suc i) xs"

definition points :: "'a list \<Rightarrow> (nat \<times> 'a) list" where
  "points elevation_values = enumerate_from 0 elevation_values"

subsection \<open>The line-drawing routine\<close>

text \<open>
  Modelled from the spec: \<^verbatim>\<open>line\<close> (imported from the drawing library, not part of the
  repository's sources) is the LineRasterizer of the specification, "a discrete
  line-drawing algorithm (Bresenham or equivalent)" on integer pixel coordinates. The
  model is the integer Bresenham procedure of that library: it allocates two index arrays
  of \<open>max(dc, dr) + 1\<close> zeros, swaps the roles of the axes when the line is steep, walks
  \<open>dc\<close> steps along the major axis while an error term \<open>d\<close> decides the steps along the
  minor axis, and stores the end pixel in the last slot.
  \<^verbatim>\<open>
      if (c1 - c) > 0: sc = 1   else: sc = -1
      if (r1 - r) > 0: sr = 1   else: sr = -1
      if dr > dc:
          steep = 1
          c, r = r, c;  dc, dr = dr, dc;  sc, sr = sr, sc
      d = (2 * dr) - dc
      for i in range(dc):
          if steep: rr[i] = c; cc[i] = r
          else:     rr[i] = r; cc[i] = c
          while d >= 0:
              r = r + sr
              d = d - (2 * dc)
          c = c + sc
          d = d + (2 * dr)
      rr[dc] = r1;  cc[dc] = c1
  \<close>
  Coordinates are unbounded integers. The inner \<^verbatim>\<open>while\<close> loop need not terminate for
  arbitrary arguments, so it is a partial function: \<open>None\<close> stands for a loop that runs
  forever.
\<close>

partial_function (option) line_while :: "int \<Rightarrow> int \<Rightarrow> int \<Rightarrow> int \<Rightarrow> (int \<times> int) option" where
  "line_while r d sr dc =
     (if 0 \<le> d then line_while (r + sr) (d - 2 * dc) sr dc else Some (r, d))"

declare line_while.simps [code]

record line_vars =
  lv_r :: int
  lv_c :: int
  lv_d :: int
  lv_rr :: "int list"
  lv_cc :: "int list"

fun line_for :: "bool \<Rightarrow> int \<Rightarrow> int \<Rightarrow> int \<Rightarrow> int \<Rightarrow> nat list \<Rightarrow> line_vars \<Rightarrow> line_vars option" where
  "line_for steep sr sc dr dc [] s = Some s"
| "line_for steep sr sc dr dc (i # is) s =
     (let rr' = (if steep then (lv_rr s)[i := lv_c s] else (lv_rr s)[i := lv_r s]);
          cc' = (if steep then (lv_cc s)[i := lv_r s] else (lv_cc s)[i := lv_c s])
      in case line_while (lv_r s) (lv_d s) sr dc of
           None \<Rightarrow> None
         | Some (r', d') \<Rightarrow>
             line_for steep sr sc dr dc is
               \<lparr>lv_r = r', lv_c = lv_c s + sc, lv_d = d' + 2 * dr, lv_rr = rr', lv_cc = cc'\<rparr>)"

definition line :: "int \<Rightarrow> int \<Rightarrow> int \<Rightarrow> int \<Rightarrow> (int list \<times> int list) option" where
  "line r0 c0 r1 c1 =
     (let dr = \<bar>r1 - r0\<bar>;
          dc = \<bar>c1 - c0\<bar>;
          rr = replicate (nat (max dc dr) + 1) (0::int);
          cc = replicate (nat (max dc dr) + 1) (0::int);
          sc = (if c1 - c0 > 0 then 1 else - 1);
          sr = (if r1 - r0 > 0 then 1 else - 1);
          steep = (dr > dc);
          (r, c) = (if steep then (c0, r0) else (r0, c0));
          (dr', dc') = (if steep then (dc, dr) else (dr, dc));
          (sr', sc') = (if steep then (sc, sr) else (sr, sc));
          d = 2 * dr' - dc'
      in case line_for steep sr' sc' dr' dc' [0..<nat dc']
                \<lparr>lv_r = r, lv_c = c, lv_d = d, lv_rr = rr, lv_cc = cc\<rparr> of
           None \<Rightarrow> None
         | Some s \<Rightarrow> Some ((lv_rr s)[nat dc' := r1], (lv_cc s)[nat dc' := c1]))"


subsection \<open>Sampling along the line\<close>

text \<open>
  \<^verbatim>\<open>
  def extract_cross_section(dem_data, start_pixel, end_pixel):
      rr, cc = line(start_pixel[0], start_pixel[1], end_pixel[0], end_pixel[1])
      return dem_data[rr, cc]
  \<close>
\<close>

definition extract_cross_section ::
    "'a ndarray2 \<Rightarrow> int \<times> int \<Rightarrow> int \<times> int \<Rightarrow> (py_exception + 'a list) option" where
  "extract_cross_section dem_data start_pixel end_pixel =
     (case line (fst start_pixel) (snd start_pixel) (fst end_pixel) (snd end_pixel) of
        None \<Rightarrow> None
      | Some (rr, cc) \<Rightarrow> Some (getitem2 dem_data rr cc))"

subsection \<open>Python numbers\<close>

text \<open>
  A Python \<^verbatim>\<open>float\<close> is a finite binary fraction, an infinity or a NaN; a finite value is
  represented by the rational it denotes. \<open>pynum\<close> is a value that is either an \<^verbatim>\<open>int\<close>
  or a \<^verbatim>\<open>float\<close>.
\<close>

datatype pyfloat = Finite rat | PosInf | NegInf | NaN

datatype pynum = PyInt int | PyFloat pyfloat

text \<open>\<^verbatim>\<open>abs(x)\<close> on a float.\<close>

fun py_abs :: "pyfloat \<Rightarrow> pyfloat" where
  "py_abs (Finite q) = Finite \<bar>q\<bar>"
| "py_abs PosInf = PosInf"
| "py_abs NegInf = PosInf"
| "py_abs NaN = NaN"

text \<open>
  \<^verbatim>\<open>int(x)\<close> on a float truncates towards zero; it raises \<^verbatim>\<open>ValueError\<close> on a NaN and
  \<^verbatim>\<open>OverflowError\<close> on an infinity.
\<close>

fun py_int :: "pyfloat \<Rightarrow> py_exception + int" where
  "py_int (Finite q) = Inr (if 0 \<le> q then \<lfloor>q\<rfloor> else \<lceil>q\<rceil>)"
| "py_int PosInf = Inl OverflowError"
| "py_int NegInf = Inl OverflowError"
| "py_int NaN = Inl ValueError"

text \<open>\<^verbatim>\<open>str(n)\<close> on an integer: the decimal digits, after a minus sign when negative.\<close>

definition digit_char :: "nat \<Rightarrow> char" where
  "digit_char d = char_of (48 + d)"

fun str_nat :: "nat \<Rightarrow> string" where
  "str_nat n = (if n < 10 then [digit_char n] else str_nat (n div 10) @ [digit_char (n mod 10)])"

declare str_nat.simps [simp del]

definition py_str :: "int \<Rightarrow> string" where
  "py_str i = (if i < 0 then CHR ''-'' # str_nat (nat (- i)) else str_nat (nat i))"

text \<open>
  \<^verbatim>\<open>round(x)\<close>: the identity on an \<^verbatim>\<open>int\<close>; on a float the nearest integer, a tie going
  to the even one; \<^verbatim>\<open>ValueError\<close> on a NaN, \<^verbatim>\<open>OverflowError\<close> on an infinity.
\<close>

definition round_half_even :: "rat \<Rightarrow> int" where
  "round_half_even q =
     (let f = \<lfloor>q\<rfloor>; r = q - of_int f
      in if r < 1 / 2 then f else if 1 / 2 < r then f + 1 else if even f then f else f + 1)"

fun py_round :: "pynum \<Rightarrow> py_exception + int" where
  "py_round (PyInt n) = Inr n"
| "py_round (PyFloat (Finite q)) = Inr (round_half_even q)"
| "py_round (PyFloat PosInf) = Inl OverflowError"
| "py_round (PyFloat NegInf) = Inl OverflowError"
| "py_round (PyFloat NaN) = Inl ValueError"

subsection \<open>Effects\<close>

text \<open>
  What a run of the script does to the outside is a trace of effects, in order: the
  messages and widgets sent to the page, the temporary files created and unlinked, the
  opening of the raster.
  \<^item> \<open>StErrorNumeric name\<close>: \<^verbatim>\<open>st.error(f"{name} must be a numeric value")\<close>
  \<^item> \<open>StErrorDigits\<close>: \<^verbatim>\<open>st.error("All coordinates must have the same number of digits in their integer parts.")\<close>
  \<^item> \<open>StErrorProcessing e\<close>: \<^verbatim>\<open>st.error(f"Error processing TIFF file: {str(e)}")\<close>
  \<^item> \<open>StInfoUpload\<close>, \<open>StInfoCoordinates\<close>: the two \<^verbatim>\<open>st.info\<close> messages
  \<^item> \<open>StWriteLength s\<close>: \<^verbatim>\<open>st.write(f"Length of the cross section: {s} meters")\<close>
  \<^item> \<open>StWritePixel label p\<close>: \<^verbatim>\<open>st.write(f"{label}: {p}")\<close>
  \<^item> \<open>StPyplotDem\<close>, \<open>StPyplotCross profile\<close>: the two charts
  \<^item> \<open>StDownloadButton pts\<close>: the download button for the drawing of the polyline \<open>pts\<close>
  \<^item> \<open>CreateTemp f\<close>: \<^verbatim>\<open>tempfile.NamedTemporaryFile(delete=False, ...)\<close>
  \<^item> \<open>Unlink f\<close>: \<^verbatim>\<open>os.unlink\<close>
  \<^item> \<open>RasterioOpen f\<close>: \<^verbatim>\<open>rasterio.open\<close>
\<close>

datatype tempfile = TifTemp | DxfTemp

datatype 'a effect =
    StErrorNumeric string
  | StErrorDigits
  | StErrorProcessing py_exception
  | StInfoUpload
  | StInfoCoordinates
  | StWriteLength string
  | StWritePixel string "int \<times> int"
  | StPyplotDem
  | StPyplotCross "'a list"
  | StDownloadButton "(nat \<times> 'a) list"
  | CreateTemp tempfile
  | Unlink tempfile
  | RasterioOpen tempfile

text \<open>
  A computation yields its trace and either the exception that ended it or its value;
  \<open>None\<close> is a computation that does not return.
\<close>

type_synonym ('a, 'r) io = "('a effect list \<times> (py_exception + 'r)) option"

definition io_return :: "'r \<Rightarrow> ('a, 'r) io" where
  "io_return x = Some ([], Inr x)"

definition io_emit :: "'a effect \<Rightarrow> ('a, unit) io" where
  "io_emit e = Some ([e], Inr ())"

definition io_lift :: "py_exception + 'r \<Rightarrow> ('a, 'r) io" where
  "io_lift v = Some ([], v)"

definition io_bind :: "('a, 'r) io \<Rightarrow> ('r \<Rightarrow> ('a, 's) io) \<Rightarrow> ('a, 's) io" where
  "io_bind m f =
     (case m of
        None \<Rightarrow> None
      | Some (t, Inl e) \<Rightarrow> Some (t, Inl e)
      | Some (t, Inr x) \<Rightarrow>
          (case f x of None \<Rightarrow> None | Some (t', y) \<Rightarrow> Some (t @ t', y)))"

text \<open>\<^verbatim>\<open>try: m  except Exception as e: handler(e)\<close>\<close>

definition io_try :: "('a, 'r) io \<Rightarrow> (py_exception \<Rightarrow> ('a, 'r) io) \<Rightarrow> ('a, 'r) io" where
  "io_try m handler =
     (case m of
        None \<Rightarrow> None
      | Some (t, Inl e) \<Rightarrow>
          (case handler e of None \<Rightarrow> None | Some (t', y) \<Rightarrow> Some (t @ t', y))
      | Some (t, Inr x) \<Rightarrow> Some (t, Inr x))"

text \<open>The temporary files a trace leaves behind, starting from the files \<open>fs\<close>.\<close>

fun leftover :: "tempfile list \<Rightarrow> 'a effect list \<Rightarrow> tempfile list" where
  "leftover fs [] = fs"
| "leftover fs (CreateTemp f # es) = leftover (fs @ [f]) es"
| "leftover fs (Unlink f # es) = leftover (removeAll f fs) es"
| "leftover fs (_ # es) = leftover fs es"

subsection \<open>The collaborators\<close>

text \<open>
  The libraries the script calls are parameters of the model:
  \<^item> \<open>py_float\<close>: \<^verbatim>\<open>float(value)\<close> on a string, \<open>None\<close> when it raises \<^verbatim>\<open>ValueError\<close>;
  \<^item> \<open>format_length\<close>: the floating-point expression
    \<^verbatim>\<open>f"{np.sqrt((end_x - start_x)**2 + (end_y - start_y)**2):.2f}"\<close>, which may raise
    (\<^verbatim>\<open>**\<close> overflows);
  \<^item> \<open>rasterio_read\<close>: opening the uploaded bytes and reading band 1 and the transform;
  \<^item> \<open>rowcol\<close>: \<^verbatim>\<open>rasterio.transform.rowcol\<close>;
  \<^item> \<open>dxf_saveas\<close>: building and saving the drawing, \<open>Some e\<close> when it raises.
  The two plotting calls are taken not to raise.
\<close>

record ('a, 'b, 't) collaborators =
  py_float :: "string \<Rightarrow> pyfloat option"
  format_length :: "pyfloat \<Rightarrow> pyfloat \<Rightarrow> pyfloat \<Rightarrow> pyfloat \<Rightarrow> py_exception + string"
  rasterio_read :: "'b \<Rightarrow> py_exception + ('a ndarray2 \<times> 't)"
  rowcol :: "'t \<Rightarrow> pyfloat \<Rightarrow> pyfloat \<Rightarrow> py_exception + (pynum \<times> pynum)"
  dxf_saveas :: "(nat \<times> 'a) list \<Rightarrow> py_exception option"

subsection \<open>The script\<close>

text \<open>
  \<^verbatim>\<open>
  def is_valid_coordinate(value, name):
      try:
          return float(value)
      except ValueError:
          st.error(f"{name} must be a numeric value")
          return None
  \<close>
\<close>

definition is_valid_coordinate ::
    "('a, 'b, 't) collaborators \<Rightarrow> string \<Rightarrow> string \<Rightarrow> 'a effect list \<times> pyfloat option" where
  "is_valid_coordinate col value name =
     (case py_float col value of
        Some v \<Rightarrow> ([], Some v)
      | None \<Rightarrow> ([StErrorNumeric name], None))"

text \<open>
  \<^verbatim>\<open>
  def get_integer_digits(num):
      return len(str(int(abs(float(num)))))
  \<close>
  (\<^verbatim>\<open>num\<close> is a float already.)
\<close>

definition get_integer_digits :: "pyfloat \<Rightarrow> py_exception + nat" where
  "get_integer_digits num =
     (case py_int (py_abs num) of
        Inl e \<Rightarrow> Inl e
      | Inr n \<Rightarrow> Inr (length (py_str n)))"

text \<open>
  \<^verbatim>\<open>
  start_pixel = (int(round(start_row)), int(round(start_col)))
  \<close>
\<close>

definition round_pixel :: "pynum \<times> pynum \<Rightarrow> py_exception + (int \<times> int)" where
  "round_pixel rc =
     (case py_round (fst rc) of
        Inl e \<Rightarrow> Inl e
      | Inr r \<Rightarrow> (case py_round (snd rc) of Inl e \<Rightarrow> Inl e | Inr c \<Rightarrow> Inr (r, c)))"

text \<open>The body of the \<^verbatim>\<open>try\<close> statement (lines 88 to 136).\<close>

definition try_body ::
    "('a, 'b, 't) collaborators \<Rightarrow> 'b \<Rightarrow> pyfloat \<Rightarrow> pyfloat \<Rightarrow> pyfloat \<Rightarrow> pyfloat \<Rightarrow> ('a, unit) io" where
  "try_body col uploaded start_x_val start_y_val end_x_val end_y_val =
     io_bind (io_emit (RasterioOpen TifTemp)) (\<lambda>_.
     io_bind (io_lift (rasterio_read col uploaded)) (\<lambda>(dem_data, transform).
     io_bind (io_emit StPyplotDem) (\<lambda>_.
     io_bind (io_lift (rowcol col transform start_x_val start_y_val)) (\<lambda>start_rc.
     io_bind (io_lift (rowcol col transform end_x_val end_y_val)) (\<lambda>end_rc.
     io_bind (io_lift (round_pixel start_rc)) (\<lambda>start_pixel.
     io_bind (io_lift (round_pixel end_rc)) (\<lambda>end_pixel.
     io_bind (io_emit (StWritePixel ''Start Pixel'' start_pixel)) (\<lambda>_.
     io_bind (io_emit (StWritePixel ''End Pixel'' end_pixel)) (\<lambda>_.
     io_bind (map_option (Pair []) (extract_cross_section dem_data start_pixel end_pixel))
       (\<lambda>elevation_values.
     io_bind (io_emit (StPyplotCross elevation_values)) (\<lambda>_.
     io_bind (io_emit (CreateTemp DxfTemp)) (\<lambda>_.
     io_bind (io_lift (case dxf_saveas col (points elevation_values) of
                         Some e \<Rightarrow> Inl e | None \<Rightarrow> Inr ())) (\<lambda>_.
     io_bind (io_emit (StDownloadButton (points elevation_values))) (\<lambda>_.
     io_bind (io_emit (Unlink TifTemp)) (\<lambda>_.
     io_emit (Unlink DxfTemp))))))))))))))))"

text \<open>
  The branch taken when the digit counts agree (lines 78 to 139): the length message, the
  temporary copy of the upload, and the \<^verbatim>\<open>try\<close> statement whose handler reports the
  exception.
\<close>

definition process ::
    "('a, 'b, 't) collaborators \<Rightarrow> 'b \<Rightarrow> pyfloat \<Rightarrow> pyfloat \<Rightarrow> pyfloat \<Rightarrow> pyfloat \<Rightarrow> ('a, unit) io" where
  "process col uploaded start_x_val start_y_val end_x_val end_y_val =
     io_bind (io_lift (format_length col start_x_val start_y_val end_x_val end_y_val)) (\<lambda>section_length.
     io_bind (io_emit (StWriteLength section_length)) (\<lambda>_.
     io_bind (io_emit (CreateTemp TifTemp)) (\<lambda>_.
     io_try (try_body col uploaded start_x_val start_y_val end_x_val end_y_val)
       (\<lambda>e. io_emit (StErrorProcessing e)))))"

text \<open>The main processing logic (lines 60 to 146).\<close>

definition main ::
    "('a, 'b, 't) collaborators \<Rightarrow> 'b option \<Rightarrow> string \<Rightarrow> string \<Rightarrow> string \<Rightarrow> string \<Rightarrow> ('a, unit) io" where
  "main col uploaded_file start_x start_y end_x end_y =
     (if uploaded_file \<noteq> None \<and> start_x \<noteq> [] \<and> start_y \<noteq> [] \<and> end_x \<noteq> [] \<and> end_y \<noteq> [] then
        (let (e1, start_x_val) = is_valid_coordinate col start_x ''Start Easting'';
             (e2, start_y_val) = is_valid_coordinate col start_y ''Start Northing'';
             (e3, end_x_val) = is_valid_coordinate col end_x ''End Easting'';
             (e4, end_y_val) = is_valid_coordinate col end_y ''End Northing''
         in case (start_x_val, start_y_val, end_x_val, end_y_val) of
              (Some sx, Some sy, Some ex, Some ey) \<Rightarrow>
                io_bind (Some (e1 @ e2 @ e3 @ e4, Inr ())) (\<lambda>_.
                io_bind (io_lift (get_integer_digits sx)) (\<lambda>x_digits.
                io_bind (io_lift (get_integer_digits sy)) (\<lambda>y_digits.
                io_bind (io_lift (get_integer_digits ex)) (\<lambda>end_x_digits.
                io_bind (io_lift (get_integer_digits ey)) (\<lambda>end_y_digits.
                  if x_digits = y_digits \<and> y_digits = end_x_digits \<and> end_x_digits = end_y_digits
                  then process col (the uploaded_file) sx sy ex ey
                  else io_emit StErrorDigits)))))
            | _ \<Rightarrow> Some (e1 @ e2 @ e3 @ e4, Inr ()))
      else Some ((if uploaded_file = None then [StInfoUpload] else []) @
                 (if start_x = [] \<or> start_y = [] \<or> end_x = [] \<or> end_y = []
                  then [StInfoCoordinates] else []), Inr ()))"

subsection \<open>The coordinate transform of the raster library\<close>

text \<open>
  Modelled from the spec: \<^verbatim>\<open>rasterio.transform.rowcol\<close> belongs to the raster library, not
  to the repository's sources. The specification describes the transform as six
  coefficients of "a single linear affine mapping" between \<open>(col, row)\<close> and
  \<open>(easting, northing)\<close>: \<open>x = a col + b row + c\<close>, \<open>y = d col + e row + f\<close>. The library
  applies the inverse mapping and then its documented default rounding operator,
  \<^verbatim>\<open>math.floor\<close>, so it returns two \<^verbatim>\<open>int\<close>s. The arithmetic is that of the rationals
  (no rounding of the intermediate results).
\<close>

record affine =
  af_a :: rat
  af_b :: rat
  af_c :: rat
  af_d :: rat
  af_e :: rat
  af_f :: rat

definition inverse_affine :: "affine \<Rightarrow> rat \<Rightarrow> rat \<Rightarrow> (rat \<times> rat) option" where
  "inverse_affine t x y =
     (let det = af_a t * af_e t - af_b t * af_d t
      in if det = 0 then None
         else Some ((af_a t * (y - af_f t) - af_d t * (x - af_c t)) / det,
                    (af_e t * (x - af_c t) - af_b t * (y - af_f t)) / det))"

fun rasterio_rowcol :: "affine \<Rightarrow> pyfloat \<Rightarrow> pyfloat \<Rightarrow> py_exception + (pynum \<times> pynum)" where
  "rasterio_rowcol t (Finite x) (Finite y) =
     (case inverse_affine t x y of
        None \<Rightarrow> Inl (CollaboratorError ''TransformError'')
      | Some (frow, fcol) \<Rightarrow> Inr (PyInt \<lfloor>frow\<rfloor>, PyInt \<lfloor>fcol\<rfloor>))"
| "rasterio_rowcol t _ _ = Inl ValueError"

definition identity_affine :: affine where
  "identity_affine = \<lparr>af_a = 1, af_b = 0, af_c = 0, af_d = 0, af_e = 1, af_f = 0\<rparr>"

subsection \<open>Auxiliary definitions for the proofs\<close>

text \<open>
  The loop of \<open>line\<close> seen as a pure iteration on the triple \<open>(r, c, d)\<close>, in the
  coordinates of the loop (after the swap of a steep line): \<open>bres_pts\<close> are the pixels
  the loop stores, \<open>bres_end\<close> is the state it leaves, \<open>bres_all\<close> are the stored
  pixels followed by the pixel of the final state. \<open>line_path\<close> is the resulting path in
  \<open>(row, col)\<close> order.
\<close>

definition unswap :: "bool \<Rightarrow> int \<times> int \<Rightarrow> int \<times> int" where
  "unswap steep p = (if steep then (snd p, fst p) else p)"

fun bres_step :: "int \<Rightarrow> int \<Rightarrow> int \<Rightarrow> int \<Rightarrow> int \<times> int \<times> int \<Rightarrow> int \<times> int \<times> int" where
  "bres_step sr sc dr dc (r, c, d) =
     (if 0 \<le> d then (r + sr, c + sc, d - 2 * dc + 2 * dr) else (r, c + sc, d + 2 * dr))"

fun bres_pts :: "int \<Rightarrow> int \<Rightarrow> int \<Rightarrow> int \<Rightarrow> nat \<Rightarrow> int \<times> int \<times> int \<Rightarrow> (int \<times> int) list" where
  "bres_pts sr sc dr dc 0 s = []"
| "bres_pts sr sc dr dc (Suc n) s = (fst s, fst (snd s)) # bres_pts sr sc dr dc n (bres_step sr sc dr dc s)"

fun bres_end :: "int \<Rightarrow> int \<Rightarrow> int \<Rightarrow> int \<Rightarrow> nat \<Rightarrow> int \<times> int \<times> int \<Rightarrow> int \<times> int \<times> int" where
  "bres_end sr sc dr dc 0 s = s"
| "bres_end sr sc dr dc (Suc n) s = bres_end sr sc dr dc n (bres_step sr sc dr dc s)"

fun bres_all :: "int \<Rightarrow> int \<Rightarrow> int \<Rightarrow> int \<Rightarrow> nat \<Rightarrow> int \<times> int \<times> int \<Rightarrow> (int \<times> int) list" where
  "bres_all sr sc dr dc 0 s = [(fst s, fst (snd s))]"
| "bres_all sr sc dr dc (Suc n) s = (fst s, fst (snd s)) # bres_all sr sc dr dc n (bres_step sr sc dr dc s)"

definition line_path :: "int \<Rightarrow> int \<Rightarrow> int \<Rightarrow> int \<Rightarrow> (int \<times> int) list" where
  "line_path r0 c0 r1 c1 =
     (let dr = \<bar>r1 - r0\<bar>; dc = \<bar>c1 - c0\<bar>;
          sc = (if c1 - c0 > 0 then 1 else - 1);
          sr = (if r1 - r0 > 0 then 1 else - 1)
      in if dr > dc
         then map (unswap True) (bres_all sc sr dc dr (nat dr) (c0, r0, 2 * dc - dr))
         else map (unswap False) (bres_all sr sc dr dc (nat dc) (r0, c0, 2 * dr - dc)))"

text \<open>
  One step of the loop moves one pixel along the major axis and at most one pixel, in the
  direction \<open>sr\<close>, along the minor axis (and only when the minor extent is positive).
  \<open>path_step r0 c0 r1 c1 a b\<close> is what the specification asks of two consecutive pixels
  \<open>a\<close>, \<open>b\<close> of the path from \<open>(r0, c0)\<close> to \<open>(r1, c1)\<close>: 8-connected, distinct, and
  each coordinate moving towards the end pixel.
\<close>

definition step_ok :: "int \<Rightarrow> int \<Rightarrow> int \<Rightarrow> int \<times> int \<Rightarrow> int \<times> int \<Rightarrow> bool" where
  "step_ok sr sc dr a b =
     (snd b = snd a + sc \<and> (fst b = fst a \<or> fst b = fst a + sr \<and> 0 < dr))"

definition path_step :: "int \<Rightarrow> int \<Rightarrow> int \<Rightarrow> int \<Rightarrow> int \<times> int \<Rightarrow> int \<times> int \<Rightarrow> bool" where
  "path_step r0 c0 r1 c1 a b =
     (\<bar>fst b - fst a\<bar> \<le> 1 \<and> \<bar>snd b - snd a\<bar> \<le> 1 \<and> a \<noteq> b \<and>
      (r0 \<le> r1 \<longrightarrow> fst a \<le> fst b) \<and> (r1 \<le> r0 \<longrightarrow> fst b \<le> fst a) \<and>
      (c0 \<le> c1 \<longrightarrow> snd a \<le> snd b) \<and> (c1 \<le> c0 \<longrightarrow> snd b \<le> snd a))"

text \<open>
  For the sampling step: \<open>in_wrapped a p\<close> says that both coordinates of the pixel \<open>p\<close>
  are valid indices of the array, counting the negative ones from the end, and
  \<open>wrapped_item a p\<close> is the sample such a pixel selects. \<open>dem2x2\<close> and \<open>dem3x4\<close>
  are small example arrays whose sample at \<open>(i, j)\<close> is \<open>10 i + j\<close>.
\<close>

definition in_wrapped :: "'a ndarray2 \<Rightarrow> int \<times> int \<Rightarrow> bool" where
  "in_wrapped a p =
     (- int (nrows a) \<le> fst p \<and> fst p < int (nrows a) \<and>
      - int (ncols a) \<le> snd p \<and> snd p < int (ncols a))"

definition wrapped_item :: "'a ndarray2 \<Rightarrow> int \<times> int \<Rightarrow> 'a" where
  "wrapped_item a p = item a (nat (fst p mod int (nrows a))) (nat (snd p mod int (ncols a)))"

definition dem2x2 :: "int ndarray2" where
  "dem2x2 = \<lparr>nrows = 2, ncols = 2, item = (\<lambda>i j. int (10 * i + j))\<rparr>"

definition dem3x4 :: "int ndarray2" where
  "dem3x4 = \<lparr>nrows = 3, ncols = 4, item = (\<lambda>i j. int (10 * i + j))\<rparr>"

text \<open>
  The specification's digit count: \<open>digit_count_of v k\<close> says that \<open>k\<close> is the number of
  decimal digits of the integer part of \<open>\<bar>v\<bar>\<close>, that is \<open>10 ^ (k - 1) \<le> \<lfloor>\<bar>v\<bar>\<rfloor> < 10 ^ k\<close>
  (one digit for the integer part 0). A NaN or an infinity has none.
\<close>

fun digit_count_of :: "pyfloat \<Rightarrow> nat \<Rightarrow> bool" where
  "digit_count_of (Finite v) k = (1 \<le> k \<and> \<lfloor>\<bar>v\<bar>\<rfloor> < 10 ^ k \<and> (k = 1 \<or> 10 ^ (k - 1) \<le> \<lfloor>\<bar>v\<bar>\<rfloor>))"
| "digit_count_of PosInf k = False"
| "digit_count_of NegInf k = False"
| "digit_count_of NaN k = False"

text \<open>
  The collaborators of one example request: the strings are read as the binary fractions
  nearest to them, the uploaded bytes decode to \<open>dem2x2\<close> with the identity transform,
  saving the drawing succeeds.
\<close>

definition example_float :: "string \<Rightarrow> pyfloat option" where
  "example_float s = map_option Finite (map_of
     [(''12.5'', 25 / 2),
      (''7.3'', 8219069319951155 / 1125899906842624),
      (''100.1'', 3521955646092083 / 35184372088832),
      (''8.9'', 5010254585449677 / 562949953421312),
      (''34.2'', 2406611050876109 / 70368744177664),
      (''56.7'', 3989907794873549 / 70368744177664),
      (''78.9'', 2776046957808845 / 35184372088832),
      (''5.5'', 11 / 2),
      (''7.5'', 15 / 2)] s)"

definition example_collaborators :: "(int, unit, affine) collaborators" where
  "example_collaborators =
     \<lparr>py_float = example_float,
      format_length = (\<lambda>sx sy ex ey. Inr ''2.83''),
      rasterio_read = (\<lambda>b. Inr (dem2x2, identity_affine)),
      rowcol = rasterio_rowcol,
      dxf_saveas = (\<lambda>pts. None)\<rparr>"

section \<open>Properties of the line-drawing routine\<close>

lemma line_while_once:
  assumes "0 < dc" "d < 2 * dc"
  shows "line_while r d sr dc = Some (if 0 \<le> d then (r + sr, d - 2 * dc) else (r, d))"
proof (cases "0 \<le> d")
  case True
  then have "line_while r d sr dc = line_while (r + sr) (d - 2 * dc) sr dc"
    by (subst line_while.simps) simp
  also have "\<dots> = Some (r + sr, d - 2 * dc)"
    using assms by (subst line_while.simps) simp
  finally show ?thesis using True by simp
next
  case False
  then show ?thesis by (subst line_while.simps) simp
qed

lemma take_Suc_update: "i < length xs \<Longrightarrow> take (Suc i) (xs[i := v]) = take i xs @ [v]"
  by (simp add: take_Suc_conv_app_nth)

lemma line_for_arrays:
  assumes "0 < dc" "0 \<le> dr" "dr \<le> dc"
  shows "d < 2 * dc \<Longrightarrow> i + n \<le> length rr \<Longrightarrow> length cc = length rr \<Longrightarrow>
    \<exists>s'. line_for steep sr sc dr dc [i..<i + n]
            \<lparr>lv_r = r, lv_c = c, lv_d = d, lv_rr = rr, lv_cc = cc\<rparr> = Some s'
        \<and> lv_rr s' = take i rr @ map (fst \<circ> unswap steep) (bres_pts sr sc dr dc n (r, c, d)) @ drop (i + n) rr
        \<and> lv_cc s' = take i cc @ map (snd \<circ> unswap steep) (bres_pts sr sc dr dc n (r, c, d)) @ drop (i + n) cc"
proof (induction n arbitrary: i r c d rr cc)
  case 0
  then show ?case by simp
next
  case (Suc n)
  have upt: "[i..<i + Suc n] = i # [Suc i..<Suc i + n]"
    by (subst upt_rec) simp
  have ilt: "i < length rr" "i < length cc" using Suc.prems by auto
  let ?rr = "if steep then rr[i := c] else rr[i := r]"
  let ?cc = "if steep then cc[i := r] else cc[i := c]"
  let ?r = "if 0 \<le> d then r + sr else r"
  let ?d = "(if 0 \<le> d then d - 2 * dc else d) + 2 * dr"
  have d': "?d < 2 * dc" using assms Suc.prems(1) by auto
  have len: "Suc i + n \<le> length ?rr" "length ?cc = length ?rr" using Suc.prems by auto
  from Suc.IH [OF d' len, of ?r "c + sc"]
  obtain s' where s': "line_for steep sr sc dr dc [Suc i..<Suc i + n]
            \<lparr>lv_r = ?r, lv_c = c + sc, lv_d = ?d, lv_rr = ?rr, lv_cc = ?cc\<rparr> = Some s'"
     and rr': "lv_rr s' = take (Suc i) ?rr @ map (fst \<circ> unswap steep) (bres_pts sr sc dr dc n (?r, c + sc, ?d)) @ drop (Suc i + n) ?rr"
     and cc': "lv_cc s' = take (Suc i) ?cc @ map (snd \<circ> unswap steep) (bres_pts sr sc dr dc n (?r, c + sc, ?d)) @ drop (Suc i + n) ?cc"
    by blast
  have step: "bres_step sr sc dr dc (r, c, d) = (?r, c + sc, ?d)" by simp
  have run: "line_for steep sr sc dr dc [i..<i + Suc n]
            \<lparr>lv_r = r, lv_c = c, lv_d = d, lv_rr = rr, lv_cc = cc\<rparr> = Some s'"
    unfolding upt using s' line_while_once [OF assms(1) Suc.prems(1), of r sr]
    by (simp split: if_splits)
  have a: "take (Suc i) ?rr = take i rr @ [fst (unswap steep (r, c))]"
    using ilt by (simp add: take_Suc_update unswap_def)
  have b: "take (Suc i) ?cc = take i cc @ [snd (unswap steep (r, c))]"
    using ilt by (simp add: take_Suc_update unswap_def)
  have c: "drop (Suc i + n) ?rr = drop (i + Suc n) rr" "drop (Suc i + n) ?cc = drop (i + Suc n) cc"
    by simp_all
  show ?case
    apply (rule exI [of _ s'])
    apply (intro conjI)
      apply (rule run)
    unfolding rr' cc' a b c bres_pts.simps step by simp_all
qed

lemma bres_all_pts: "bres_all sr sc dr dc n s = bres_pts sr sc dr dc n s @ [(fst (bres_end sr sc dr dc n s), fst (snd (bres_end sr sc dr dc n s)))]"
  by (induction n arbitrary: s) simp_all

lemma length_bres_all: "length (bres_all sr sc dr dc n s) = Suc n"
  by (induction n arbitrary: s) simp_all

lemma length_bres_pts: "length (bres_pts sr sc dr dc n s) = n"
  by (induction n arbitrary: s) simp_all

lemma hd_bres_all: "hd (bres_all sr sc dr dc n s) = (fst s, fst (snd s))"
  by (cases n) simp_all

lemma bres_end_target:
  assumes "0 < dc" "0 \<le> dr" "dr \<le> dc"
  shows "d = 2 * dc * m - 2 * dr * int n + 2 * dr - dc \<Longrightarrow> 2 * dr - 2 * dc \<le> d \<Longrightarrow> d < 2 * dr \<Longrightarrow>
     \<exists>d'. bres_end sr sc dr dc n (r, c, d) = (r + sr * m, c + sc * int n, d')"
proof (induction n arbitrary: r c d m)
  case 0
  have "m = 0"
  proof (rule ccontr)
    assume "m \<noteq> 0"
    then consider "1 \<le> m" | "m \<le> - 1" by linarith
    then show False
    proof cases
      case 1
      then have "dc * 1 \<le> dc * m" using assms(1) by (intro mult_left_mono) simp_all
      with 0 assms show False by simp
    next
      case 2
      then have "dc * m \<le> dc * (- 1)" using assms(1) by (intro mult_left_mono) simp_all
      with 0 assms show False by simp
    qed
  qed
  then show ?case by simp
next
  case (Suc n)
  show ?case
  proof (cases "0 \<le> d")
    case True
    have e: "d - 2 * dc + 2 * dr = 2 * dc * (m - 1) - 2 * dr * int n + 2 * dr - dc"
      using Suc.prems(1) by (simp add: algebra_simps)
    have "\<exists>d'. bres_end sr sc dr dc n (r + sr, c + sc, d - 2 * dc + 2 * dr) = (r + sr + sr * (m - 1), c + sc + sc * int n, d')"
      using Suc.prems assms True by (intro Suc.IH [OF e]) simp_all
    then show ?thesis using True by (simp add: algebra_simps)
  next
    case False
    have e: "d + 2 * dr = 2 * dc * m - 2 * dr * int n + 2 * dr - dc"
      using Suc.prems(1) by (simp add: algebra_simps)
    have "\<exists>d'. bres_end sr sc dr dc n (r, c + sc, d + 2 * dr) = (r + sr * m, c + sc + sc * int n, d')"
      using Suc.prems assms False by (intro Suc.IH [OF e]) simp_all
    then show ?thesis using False by (simp add: algebra_simps)
  qed
qed


lemma line_for_result:
  assumes dr: "0 \<le> dr" "dr \<le> dc"
    and tgt: "unswap steep (r + sr * dr, c + sc * dc) = (r1, c1)"
  shows "(case line_for steep sr sc dr dc [0..<nat dc]
                \<lparr>lv_r = r, lv_c = c, lv_d = 2 * dr - dc,
                 lv_rr = replicate (nat dc + 1) 0, lv_cc = replicate (nat dc + 1) 0\<rparr> of
           None \<Rightarrow> None
         | Some s \<Rightarrow> Some ((lv_rr s)[nat dc := r1], (lv_cc s)[nat dc := c1]))
       = Some (map (fst \<circ> unswap steep) (bres_all sr sc dr dc (nat dc) (r, c, 2 * dr - dc)),
               map (snd \<circ> unswap steep) (bres_all sr sc dr dc (nat dc) (r, c, 2 * dr - dc)))"
proof (cases "dc = 0")
  case True
  with dr have "dr = 0" by simp
  with True tgt show ?thesis by simp
next
  case False
  with dr have pos: "0 < dc" by simp
  let ?n = "nat dc"
  let ?z = "replicate (?n + 1) (0::int)"
  let ?pts = "bres_pts sr sc dr dc ?n (r, c, 2 * dr - dc)"
  have "\<exists>s'. line_for steep sr sc dr dc [0..<0 + ?n]
            \<lparr>lv_r = r, lv_c = c, lv_d = 2 * dr - dc, lv_rr = ?z, lv_cc = ?z\<rparr> = Some s'
        \<and> lv_rr s' = take 0 ?z @ map (fst \<circ> unswap steep) ?pts @ drop (0 + ?n) ?z
        \<and> lv_cc s' = take 0 ?z @ map (snd \<circ> unswap steep) ?pts @ drop (0 + ?n) ?z"
    using pos dr by (intro line_for_arrays) simp_all
  moreover have "drop (0 + ?n) ?z = [0]"
    by (simp only: drop_replicate) simp
  ultimately obtain s' where run: "line_for steep sr sc dr dc [0..<?n]
            \<lparr>lv_r = r, lv_c = c, lv_d = 2 * dr - dc, lv_rr = ?z, lv_cc = ?z\<rparr> = Some s'"
    and rr: "lv_rr s' = map (fst \<circ> unswap steep) ?pts @ [0]"
    and cc: "lv_cc s' = map (snd \<circ> unswap steep) ?pts @ [0]"
    by (auto simp del: replicate.simps replicate_Suc)
  have e: "2 * dr - dc = 2 * dc * dr - 2 * dr * int ?n + 2 * dr - dc"
    using pos by simp
  have "\<exists>d'. bres_end sr sc dr dc ?n (r, c, 2 * dr - dc) = (r + sr * dr, c + sc * int ?n, d')"
    using pos dr by (intro bres_end_target [OF pos dr e]) simp_all
  then obtain d' where fin: "bres_end sr sc dr dc ?n (r, c, 2 * dr - dc) = (r + sr * dr, c + sc * dc, d')"
    using pos by auto
  have len: "length (map (fst \<circ> unswap steep) ?pts) = ?n" "length (map (snd \<circ> unswap steep) ?pts) = ?n"
    by (simp_all add: length_bres_pts)
  have upd: "(lv_rr s')[?n := r1] = map (fst \<circ> unswap steep) ?pts @ [r1]"
    "(lv_cc s')[?n := c1] = map (snd \<circ> unswap steep) ?pts @ [c1]"
    unfolding rr cc using len by (simp_all add: list_update_append)
  have r1: "r1 = fst (unswap steep (r + sr * dr, c + sc * dc))"
    and c1: "c1 = snd (unswap steep (r + sr * dr, c + sc * dc))"
    using tgt by simp_all
  show ?thesis
    unfolding run option.case upd bres_all_pts fin
    by (simp add: r1 c1)
qed

lemma line_eq:
  "line r0 c0 r1 c1 = Some (map fst (line_path r0 c0 r1 c1), map snd (line_path r0 c0 r1 c1))"
proof (cases "\<bar>r1 - r0\<bar> > \<bar>c1 - c0\<bar>")
  case True
  let ?sc = "if c1 - c0 > 0 then 1 else - 1 :: int"
  let ?sr = "if r1 - r0 > 0 then 1 else - 1 :: int"
  have tgt: "unswap True (c0 + ?sc * \<bar>c1 - c0\<bar>, r0 + ?sr * \<bar>r1 - r0\<bar>) = (r1, c1)"
    by (simp add: unswap_def)
  have m: "max \<bar>c1 - c0\<bar> \<bar>r1 - r0\<bar> = \<bar>r1 - r0\<bar>" using True by simp
  show ?thesis
    unfolding line_def line_path_def Let_def m
    using True line_for_result [OF _ _ tgt]
    by simp
next
  case False
  let ?sc = "if c1 - c0 > 0 then 1 else - 1 :: int"
  let ?sr = "if r1 - r0 > 0 then 1 else - 1 :: int"
  have tgt: "unswap False (r0 + ?sr * \<bar>r1 - r0\<bar>, c0 + ?sc * \<bar>c1 - c0\<bar>) = (r1, c1)"
    by (simp add: unswap_def)
  have m: "max \<bar>c1 - c0\<bar> \<bar>r1 - r0\<bar> = \<bar>c1 - c0\<bar>" using False by simp
  show ?thesis
    unfolding line_def line_path_def Let_def m
    using False line_for_result [OF _ _ tgt]
    by simp
qed


lemma bres_all_nonempty: "bres_all sr sc dr dc n s \<noteq> []"
  by (cases n) simp_all

lemma bres_all_steps:
  assumes "0 \<le> dr" "dr \<le> dc"
  shows "d < 2 * dr \<Longrightarrow> successively (step_ok sr sc dr) (bres_all sr sc dr dc n (r, c, d))"
proof (induction n arbitrary: r c d)
  case 0
  show ?case by simp
next
  case (Suc n)
  let ?s = "bres_step sr sc dr dc (r, c, d)"
  obtain r' c' d' where s: "?s = (r', c', d')" by (cases ?s)
  have d': "d' < 2 * dr" using s Suc.prems assms by (auto split: if_splits)
  have ok: "step_ok sr sc dr (r, c) (r', c')"
    using s Suc.prems assms by (auto simp: step_ok_def split: if_splits)
  have "successively (step_ok sr sc dr) (bres_all sr sc dr dc n (r', c', d'))"
    by (rule Suc.IH [OF d'])
  moreover have "bres_all sr sc dr dc (Suc n) (r, c, d) = (r, c) # bres_all sr sc dr dc n (r', c', d')"
    using s by (simp del: bres_step.simps)
  ultimately show ?case using ok
    by (simp add: successively_Cons hd_bres_all)
qed

lemma last_bres_all:
  assumes "0 \<le> dr" "dr \<le> dc"
  shows "last (bres_all sr sc dr dc (nat dc) (r, c, 2 * dr - dc)) = (r + sr * dr, c + sc * dc)"
proof (cases "dc = 0")
  case True
  with assms show ?thesis by simp
next
  case False
  with assms have pos: "0 < dc" by simp
  have e: "2 * dr - dc = 2 * dc * dr - 2 * dr * int (nat dc) + 2 * dr - dc"
    using pos by simp
  have "\<exists>d'. bres_end sr sc dr dc (nat dc) (r, c, 2 * dr - dc) = (r + sr * dr, c + sc * int (nat dc), d')"
    using pos assms by (intro bres_end_target [OF pos assms e]) simp_all
  then show ?thesis using pos by (auto simp: bres_all_pts)
qed

lemma length_line_path:
  "length (line_path r0 c0 r1 c1) = nat (max \<bar>r1 - r0\<bar> \<bar>c1 - c0\<bar>) + 1"
  by (simp add: line_path_def Let_def length_bres_all max_def)

lemma hd_line_path: "hd (line_path r0 c0 r1 c1) = (r0, c0)"
  by (simp add: line_path_def Let_def hd_map bres_all_nonempty hd_bres_all unswap_def)

lemma last_line_path: "last (line_path r0 c0 r1 c1) = (r1, c1)"
  by (simp add: line_path_def Let_def last_map bres_all_nonempty last_bres_all unswap_def)

lemma line_path_same: "line_path r0 c0 r0 c0 = [(r0, c0)]"
  by (simp add: line_path_def unswap_def)

lemma line_path_steps: "successively (path_step r0 c0 r1 c1) (line_path r0 c0 r1 c1)"
proof -
  let ?dr = "\<bar>r1 - r0\<bar>" and ?dc = "\<bar>c1 - c0\<bar>"
  let ?sc = "if c1 - c0 > 0 then 1 else - 1 :: int"
  let ?sr = "if r1 - r0 > 0 then 1 else - 1 :: int"
  show ?thesis
  proof (cases "?dr > ?dc")
    case True
    have A: "successively (step_ok ?sc ?sr ?dc) (bres_all ?sc ?sr ?dc ?dr (nat ?dr) (c0, r0, 2 * ?dc - ?dr))"
      using True by (intro bres_all_steps) simp_all
    have B: "step_ok ?sc ?sr ?dc a b \<Longrightarrow> path_step r0 c0 r1 c1 (unswap True a) (unswap True b)" for a b
      using True by (cases a, cases b) (auto simp: step_ok_def path_step_def unswap_def split: if_splits)
    have "successively (\<lambda>a b. path_step r0 c0 r1 c1 (unswap True a) (unswap True b))
        (bres_all ?sc ?sr ?dc ?dr (nat ?dr) (c0, r0, 2 * ?dc - ?dr))"
      by (rule successively_mono [OF A]) (rule B)
    then show ?thesis using True
      by (simp add: line_path_def Let_def successively_map)
  next
    case False
    show ?thesis
    proof (cases "?dc = 0")
      case True
      with False have "r1 = r0" "c1 = c0" by simp_all
      then show ?thesis by (simp add: line_path_same)
    next
      case nz: False
      have A: "successively (step_ok ?sr ?sc ?dr) (bres_all ?sr ?sc ?dr ?dc (nat ?dc) (r0, c0, 2 * ?dr - ?dc))"
        using False nz by (intro bres_all_steps) simp_all
      have B: "step_ok ?sr ?sc ?dr a b \<Longrightarrow> path_step r0 c0 r1 c1 (unswap False a) (unswap False b)" for a b
        using False nz by (cases a, cases b) (auto simp: step_ok_def path_step_def unswap_def split: if_splits)
      have "successively (\<lambda>a b. path_step r0 c0 r1 c1 (unswap False a) (unswap False b))
          (bres_all ?sr ?sc ?dr ?dc (nat ?dc) (r0, c0, 2 * ?dr - ?dc))"
        by (rule successively_mono [OF A]) (rule B)
      then show ?thesis using False
        by (simp add: line_path_def Let_def successively_map)
    qed
  qed
qed

section \<open>Properties of sampling and export\<close>

lemma enumerate_from_eq: "enumerate_from i xs = zip [i..<i + length xs] xs"
proof (induction xs arbitrary: i)
  case Nil
  show ?case by simp
next
  case (Cons x xs)
  have "[i..<i + length (x # xs)] = i # [Suc i..<Suc i + length xs]"
    by (subst upt_rec) simp
  with Cons.IH [of "Suc i"] show ?case by simp
qed

subsection \<open>Claims on the rasterized path\<close>

text \<open>
  Claim C4. For all integer pixel coordinates \<open>(r0, c0)\<close> and \<open>(r1, c1)\<close> the
  line-drawing routine returns, and the path it returns (the two index arrays paired up)
  has at least one pixel, starts at \<open>(r0, c0)\<close> and ends at \<open>(r1, c1)\<close>; from a pixel
  to itself the path is that single pixel.
\<close>

theorem line_endpoints:
  "\<exists>rr cc. line r0 c0 r1 c1 = Some (rr, cc) \<and> length rr = length cc \<and> 1 \<le> length (zip rr cc)
      \<and> hd (zip rr cc) = (r0, c0) \<and> last (zip rr cc) = (r1, c1)
      \<and> line r0 c0 r0 c0 = Some ([r0], [c0])"
proof -
  let ?p = "line_path r0 c0 r1 c1"
  have z: "zip (map fst ?p) (map snd ?p) = ?p" by (simp add: zip_map_fst_snd)
  have "1 \<le> length ?p" by (simp add: length_line_path)
  moreover have "line r0 c0 r0 c0 = Some ([r0], [c0])"
    by (simp add: line_eq line_path_same)
  ultimately show ?thesis
    unfolding line_eq
    by (simp add: z hd_line_path last_line_path del: One_nat_def)
qed

text \<open>
  Claim C5. In every octant, two consecutive pixels of the path differ by at most one in
  each coordinate, are never equal, and each coordinate moves towards the end pixel
  (it stays constant when start and end agree in it).
\<close>

theorem line_steps:
  "\<exists>rr cc. line r0 c0 r1 c1 = Some (rr, cc) \<and> length rr = length cc
      \<and> successively (path_step r0 c0 r1 c1) (zip rr cc)"
proof -
  let ?p = "line_path r0 c0 r1 c1"
  have z: "zip (map fst ?p) (map snd ?p) = ?p" by (simp add: zip_map_fst_snd)
  show ?thesis unfolding line_eq by (simp add: z line_path_steps)
qed

theorem line_steps_witness:
  "line 2 5 (- 3) 1 = Some ([2, 1, 0, - 1, - 2, - 3], [5, 4, 3, 3, 2, 1])
   \<and> successively (path_step 2 5 (- 3) 1) (zip [2, 1, 0, - 1, - 2, - 3] [5, 4, 3, 3, 2, 1])
   \<and> path_step 2 5 (- 3) 1 (0, 3) (- 1, 3)"
proof -
  have e: "line 2 5 (- 3) 1 = Some ([2, 1, 0, - 1, - 2, - 3], [5, 4, 3, 3, 2, 1])"
    by code_simp
  have p: "path_step 2 5 (- 3) 1 (0, 3) (- 1, 3)"
    by (simp add: path_step_def)
  from line_steps [of 2 5 "- 3" 1] e p show ?thesis by simp
qed

text \<open>
  Claim C9. The path from \<open>p0\<close> to \<open>p1\<close> and the path from \<open>p1\<close> to \<open>p0\<close> have the
  same length.
\<close>

theorem line_length_symmetric:
  "\<exists>p q. line r0 c0 r1 c1 = Some p \<and> line r1 c1 r0 c0 = Some q
      \<and> length (fst p) = length (fst q) \<and> length (snd p) = length (snd q)
      \<and> length (fst p) = length (snd p)"
  unfolding line_eq by (simp add: length_line_path abs_minus_commute)

subsection \<open>Integer-array indexing\<close>

lemma norm_index_wrap:
  assumes "- int n \<le> i" "i < int n"
  shows "norm_index n i = Inr (nat (i mod int n))"
proof (cases "i < 0")
  case True
  have "i mod int n = (i + int n) mod int n" by simp
  also have "\<dots> = i + int n" using assms True by (intro mod_pos_pos_trivial) simp_all
  finally show ?thesis using assms True by (simp add: norm_index_def)
next
  case False
  then show ?thesis using assms by (simp add: norm_index_def)
qed

lemma norm_index_fail: "i < - int n \<or> int n \<le> i \<Longrightarrow> norm_index n i = Inl IndexError"
  by (simp add: norm_index_def)

lemma norm_index_Inl: "norm_index n i = Inl e \<Longrightarrow> e = IndexError \<and> (i < - int n \<or> int n \<le> i)"
  by (auto simp: norm_index_def split: if_splits)

lemma take_points_wrap:
  "\<forall>p \<in> set ps. in_wrapped a p \<Longrightarrow> take_points a ps = Inr (map (wrapped_item a) ps)"
proof (induction ps)
  case Nil
  show ?case by simp
next
  case (Cons p ps)
  obtain r c where p: "p = (r, c)" by (cases p)
  from Cons.prems p have "in_wrapped a (r, c)" by simp
  then have "norm_index (nrows a) r = Inr (nat (r mod int (nrows a)))"
      "norm_index (ncols a) c = Inr (nat (c mod int (ncols a)))"
    by (simp_all add: in_wrapped_def norm_index_wrap)
  moreover have "take_points a ps = Inr (map (wrapped_item a) ps)"
    using Cons by simp
  ultimately show ?case by (simp add: p wrapped_item_def)
qed

lemma take_points_fail:
  "\<exists>p \<in> set ps. \<not> in_wrapped a p \<Longrightarrow> take_points a ps = Inl IndexError"
proof (induction ps)
  case Nil
  then show ?case by simp
next
  case (Cons p ps)
  obtain r c where p: "p = (r, c)" by (cases p)
  show ?case
  proof (cases "in_wrapped a (r, c)")
    case True
    then have "norm_index (nrows a) r = Inr (nat (r mod int (nrows a)))"
      "norm_index (ncols a) c = Inr (nat (c mod int (ncols a)))"
      by (simp_all add: in_wrapped_def norm_index_wrap)
    moreover have "take_points a ps = Inl IndexError"
      using Cons True p by auto
    ultimately show ?thesis by (simp add: p)
  next
    case False
    show ?thesis
    proof (cases "- int (nrows a) \<le> r \<and> r < int (nrows a)")
      case True
      then have "norm_index (nrows a) r = Inr (nat (r mod int (nrows a)))"
        by (simp add: norm_index_wrap)
      moreover have "norm_index (ncols a) c = Inl IndexError"
        using False True by (intro norm_index_fail) (auto simp: in_wrapped_def)
      ultimately show ?thesis by (simp add: p)
    next
      case False
      then have "norm_index (nrows a) r = Inl IndexError"
        by (intro norm_index_fail) auto
      then show ?thesis by (simp add: p)
    qed
  qed
qed


lemma getitem2_zip: "length rr = length cc \<Longrightarrow> getitem2 a rr cc = take_points a (zip rr cc)"
  by (simp add: getitem2_def broadcast2_def)

lemma wrapped_item_in_bounds:
  assumes "0 \<le> fst p" "fst p < int (nrows a)" "0 \<le> snd p" "snd p < int (ncols a)"
  shows "wrapped_item a p = item a (nat (fst p)) (nat (snd p))"
  using assms by (simp add: wrapped_item_def)

lemma getitem2_in_bounds:
  assumes len: "length rr = length cc"
    and inb: "\<forall>p \<in> set (zip rr cc).
        0 \<le> fst p \<and> fst p < int (nrows a) \<and> 0 \<le> snd p \<and> snd p < int (ncols a)"
  shows "\<exists>profile. getitem2 a rr cc = Inr profile \<and> length profile = length rr
      \<and> (\<forall>i < length rr. profile ! i = item a (nat (rr ! i)) (nat (cc ! i)))"
proof -
  have w: "\<forall>p \<in> set (zip rr cc). in_wrapped a p"
    using inb by (auto simp: in_wrapped_def)
  have g: "getitem2 a rr cc = Inr (map (wrapped_item a) (zip rr cc))"
    using len w by (simp add: getitem2_zip take_points_wrap)
  have "map (wrapped_item a) (zip rr cc) ! i = item a (nat (rr ! i)) (nat (cc ! i))"
    if i: "i < length rr" for i
  proof -
    have m: "zip rr cc ! i \<in> set (zip rr cc)" using i len by (intro nth_mem) simp
    have z: "zip rr cc ! i = (rr ! i, cc ! i)" using i len by simp
    from inb m z have "wrapped_item a (rr ! i, cc ! i) = item a (nat (rr ! i)) (nat (cc ! i))"
      by (intro wrapped_item_in_bounds [THEN trans]) auto
    then show ?thesis using i len by simp
  qed
  with g len show ?thesis by simp
qed

lemma getitem2_wraps:
  assumes "length rr = length cc" and "\<forall>p \<in> set (zip rr cc). in_wrapped a p"
  shows "getitem2 a rr cc = Inr (map (wrapped_item a) (zip rr cc))"
  using assms by (simp add: getitem2_zip take_points_wrap)

subsection \<open>Claims on sampling\<close>

text \<open>
  Claim C6. \<open>line\<close> returns the path \<open>(rr, cc)\<close> between the two pixels, and when
  every pixel of this path lies within the extent of the array, \<open>extract_cross_section\<close>
  returns a profile as long as the path whose \<open>i\<close>-th value is the sample at the
  \<open>i\<close>-th pixel of the path.
\<close>

theorem extract_in_bounds:
  "\<exists>rr cc. line r0 c0 r1 c1 = Some (rr, cc) \<and> length rr = length cc \<and>
     ((\<forall>p \<in> set (zip rr cc).
          0 \<le> fst p \<and> fst p < int (nrows a) \<and> 0 \<le> snd p \<and> snd p < int (ncols a)) \<longrightarrow>
      (\<exists>profile. extract_cross_section a (r0, c0) (r1, c1) = Some (Inr profile)
         \<and> length profile = length rr
         \<and> (\<forall>i < length rr. profile ! i = item a (nat (rr ! i)) (nat (cc ! i)))))"
proof -
  obtain rr cc where l: "line r0 c0 r1 c1 = Some (rr, cc)" and len: "length rr = length cc"
    by (simp add: line_eq)
  have e: "extract_cross_section a (r0, c0) (r1, c1) = Some (getitem2 a rr cc)"
    by (simp add: extract_cross_section_def l)
  show ?thesis
    using l len e getitem2_in_bounds [OF len, of a] by auto
qed

theorem extract_in_bounds_witness:
  "line 0 0 2 3 = Some ([0, 1, 1, 2], [0, 1, 2, 3])
   \<and> extract_cross_section dem3x4 (0, 0) (2, 3) = Some (Inr [0, 11, 12, 23])"
proof -
  have l: "line 0 0 2 3 = Some ([0, 1, 1, 2], [0, 1, 2, 3])" by code_simp
  have inb: "\<forall>p \<in> set (zip [0, 1, 1, 2 :: int] [0, 1, 2, 3 :: int]).
      0 \<le> fst p \<and> fst p < int (nrows dem3x4) \<and> 0 \<le> snd p \<and> snd p < int (ncols dem3x4)"
    by (simp add: dem3x4_def)
  from extract_in_bounds [of 0 0 2 3 dem3x4] l inb
  obtain profile where p: "extract_cross_section dem3x4 (0, 0) (2, 3) = Some (Inr profile)"
    "length profile = 4"
    "\<forall>i < 4. profile ! i = item dem3x4 (nat ([0, 1, 1, 2] ! i)) (nat ([0, 1, 2, 3] ! i))"
    by auto
  have g: "getitem2 dem3x4 [0, 1, 1, 2] [0, 1, 2, 3] = Inr [0, 11, 12, 23]"
    by (simp add: getitem2_def broadcast2_def norm_index_def dem3x4_def)
  have e: "extract_cross_section dem3x4 (0, 0) (2, 3) = Some (Inr [0, 11, 12, 23])"
    by (simp add: extract_cross_section_def l g)
  from p(1) e l show ?thesis by simp
qed

text \<open>
  Claim C10. \<open>line\<close> returns the path \<open>(rr, cc)\<close> between the two pixels, and when
  every pixel of this path has its row in \<open>[-h, h)\<close> and its column in \<open>[-w, w)\<close>,
  \<open>extract_cross_section\<close> does not fail: for each pixel, also one with a negative row
  or column, the profile holds the sample at the wrapped position
  \<open>(row mod h, col mod w)\<close>.
\<close>

theorem extract_wraps:
  "\<exists>rr cc. line r0 c0 r1 c1 = Some (rr, cc) \<and> length rr = length cc \<and>
     ((\<forall>p \<in> set (zip rr cc). in_wrapped a p) \<longrightarrow>
      extract_cross_section a (r0, c0) (r1, c1) = Some (Inr (map (wrapped_item a) (zip rr cc))))"
proof -
  obtain rr cc where l: "line r0 c0 r1 c1 = Some (rr, cc)" and len: "length rr = length cc"
    by (simp add: line_eq)
  have e: "extract_cross_section a (r0, c0) (r1, c1) = Some (getitem2 a rr cc)"
    by (simp add: extract_cross_section_def l)
  show ?thesis
    using l len e getitem2_wraps [OF len, of a] by auto
qed

theorem extract_wraps_witness:
  "line 0 (- 2) 1 1 = Some ([0, 0, 1, 1], [- 2, - 1, 0, 1])
   \<and> in_wrapped dem2x2 (0, - 2) \<and> (- 2 :: int) < 0
   \<and> extract_cross_section dem2x2 (0, - 2) (1, 1) = Some (Inr [0, 1, 10, 11])"
proof -
  have l: "line 0 (- 2) 1 1 = Some ([0, 0, 1, 1], [- 2, - 1, 0, 1])" by code_simp
  have w: "\<forall>p \<in> set (zip [0, 0, 1, 1 :: int] [- 2, - 1, 0, 1 :: int]). in_wrapped dem2x2 p"
    by (simp add: in_wrapped_def dem2x2_def)
  from extract_wraps [of 0 "- 2" 1 1 dem2x2] l w
  have "extract_cross_section dem2x2 (0, - 2) (1, 1)
      = Some (Inr (map (wrapped_item dem2x2) (zip [0, 0, 1, 1] [- 2, - 1, 0, 1])))"
    by auto
  then show ?thesis using l w by (simp add: wrapped_item_def dem2x2_def)
qed


subsection \<open>Claims on the export points\<close>

text \<open>
  Claim C8. The export points of a profile of length \<open>n\<close> are \<open>n\<close> points, their
  first components are \<open>0, 1, ..., n - 1\<close> in this order, their second components are
  the profile, and the \<open>i\<close>-th point is \<open>(i, profile[i])\<close>.
\<close>

theorem points_indexed:
  "length (points profile) = length profile
   \<and> map fst (points profile) = [0..<length profile]
   \<and> map snd (points profile) = profile
   \<and> (\<forall>i < length profile. points profile ! i = (i, profile ! i))"
  by (simp add: points_def enumerate_from_eq)

theorem points_indexed_witness:
  "points [100, 101, 99 :: int] = [(0, 100), (1, 101), (2, 99)]
   \<and> points [100, 101, 99 :: int] ! 2 = (2, 99)"
proof -
  have "points [100, 101, 99 :: int] ! 2 = (2, [100, 101, 99] ! 2)"
    using points_indexed [of "[100, 101, 99 :: int]"] by simp
  moreover have "points [100, 101, 99 :: int] = [(0, 100), (1, 101), (2, 99)]"
    by (simp add: points_def)
  ultimately show ?thesis by simp
qed

section \<open>Properties of the script\<close>

subsection \<open>The digit count\<close>

lemma length_str_nat_pos: "1 \<le> length (str_nat n)"
  by (subst str_nat.simps) simp

lemma str_nat_upper: "n < 10 ^ length (str_nat n)"
proof (induction n rule: str_nat.induct)
  case (1 n)
  show ?case
  proof (cases "n < 10")
    case True
    then show ?thesis by (subst str_nat.simps) simp
  next
    case False
    then have "n div 10 < 10 ^ length (str_nat (n div 10))" by (rule "1.IH")
    then have "n < 10 * 10 ^ length (str_nat (n div 10))" by simp
    then show ?thesis using False by (subst str_nat.simps) simp
  qed
qed

lemma str_nat_lower: "10 \<le> n \<Longrightarrow> 10 ^ (length (str_nat n) - 1) \<le> n"
proof (induction n rule: str_nat.induct)
  case (1 n)
  then have ge: "\<not> n < 10" by simp
  have len: "length (str_nat n) = Suc (length (str_nat (n div 10)))"
    using ge by (subst str_nat.simps) simp
  show ?case
  proof (cases "10 \<le> n div 10")
    case True
    then have "10 ^ (length (str_nat (n div 10)) - 1) \<le> n div 10"
      using ge by (intro "1.IH") simp_all
    then have "10 * 10 ^ (length (str_nat (n div 10)) - 1) \<le> n" by simp
    moreover have "10 * (10::nat) ^ (length (str_nat (n div 10)) - 1) = 10 ^ length (str_nat (n div 10))"
      using length_str_nat_pos [of "n div 10"]
      by (cases "length (str_nat (n div 10))") simp_all
    ultimately show ?thesis by (simp add: len)
  next
    case False
    then have "length (str_nat (n div 10)) = 1" by (subst str_nat.simps) simp
    then show ?thesis using 1(2) by (simp add: len)
  qed
qed

lemma str_nat_small: "n < 10 \<Longrightarrow> length (str_nat n) = 1"
  by (subst str_nat.simps) simp

lemma digit_count_unique:
  assumes "digit_count_of v k" "digit_count_of v k'"
  shows "k = k'"
proof -
  have aux: False
    if a: "1 \<le> j" "n < (10::int) ^ j" and b: "j < j'" "j' = 1 \<or> 10 ^ (j' - 1) \<le> n" for j j' n
  proof -
    from a b have "(10::int) ^ (j' - 1) \<le> n" by auto
    moreover have "(10::int) ^ j \<le> 10 ^ (j' - 1)" using b by (intro power_increasing) simp_all
    ultimately have "(10::int) ^ j \<le> n" by (rule order_trans [rotated])
    with a(2) show False by simp
  qed
  obtain q where v: "v = Finite q" using assms(1) by (cases v) simp_all
  from assms have a: "1 \<le> k" "\<lfloor>\<bar>q\<bar>\<rfloor> < 10 ^ k" "k = 1 \<or> 10 ^ (k - 1) \<le> \<lfloor>\<bar>q\<bar>\<rfloor>"
    and b: "1 \<le> k'" "\<lfloor>\<bar>q\<bar>\<rfloor> < 10 ^ k'" "k' = 1 \<or> 10 ^ (k' - 1) \<le> \<lfloor>\<bar>q\<bar>\<rfloor>"
    by (simp_all add: v)
  show ?thesis
  proof (rule ccontr)
    assume "k \<noteq> k'"
    then consider "k < k'" | "k' < k" by linarith
    then show False
    proof cases
      case 1
      then show False using aux [OF a(1) a(2) 1 b(3)] by simp
    next
      case 2
      then show False using aux [OF b(1) b(2) 2 a(3)] by simp
    qed
  qed
qed

lemma get_integer_digits_Finite:
  "\<exists>k. get_integer_digits (Finite v) = Inr k \<and> digit_count_of (Finite v) k"
proof -
  let ?n = "nat \<lfloor>\<bar>v\<bar>\<rfloor>"
  let ?k = "length (str_nat ?n)"
  have nn: "0 \<le> \<lfloor>\<bar>v\<bar>\<rfloor>" by simp
  have g: "get_integer_digits (Finite v) = Inr ?k"
    using nn by (simp add: get_integer_digits_def py_str_def)
  have u: "\<lfloor>\<bar>v\<bar>\<rfloor> < 10 ^ ?k"
  proof -
    have "int ?n < int (10 ^ ?k)" using str_nat_upper [of ?n] by (simp only: of_nat_less_iff)
    moreover have "int ?n = \<lfloor>\<bar>v\<bar>\<rfloor>" using nn by simp
    ultimately show ?thesis by simp
  qed
  have l: "?k = 1 \<or> 10 ^ (?k - 1) \<le> \<lfloor>\<bar>v\<bar>\<rfloor>"
  proof (cases "10 \<le> ?n")
    case True
    then have "10 ^ (?k - 1) \<le> ?n" by (rule str_nat_lower)
    then have "int (10 ^ (?k - 1)) \<le> int ?n" by (simp only: of_nat_le_iff)
    moreover have "int ?n = \<lfloor>\<bar>v\<bar>\<rfloor>" using nn by simp
    ultimately show ?thesis by simp
  next
    case False
    then show ?thesis by (simp add: str_nat_small)
  qed
  have "digit_count_of (Finite v) ?k"
    unfolding digit_count_of.simps using u l length_str_nat_pos [of ?n] by blast
  with g show ?thesis by blast
qed

lemma get_integer_digits_Inr:
  "get_integer_digits v = Inr k \<longleftrightarrow> digit_count_of v k"
proof (cases v)
  case (Finite q)
  obtain k0 where k0: "get_integer_digits (Finite q) = Inr k0" "digit_count_of (Finite q) k0"
    using get_integer_digits_Finite by blast
  show ?thesis
  proof
    assume "get_integer_digits v = Inr k"
    with k0 show "digit_count_of v k" by (simp add: Finite)
  next
    assume "digit_count_of v k"
    then have "k0 = k" using k0(2) by (intro digit_count_unique [of "Finite q"]) (simp_all add: Finite)
    with k0 show "get_integer_digits v = Inr k" by (simp add: Finite)
  qed
qed (simp_all add: get_integer_digits_def)

lemma get_integer_digits_cases:
  "(\<exists>k. get_integer_digits v = Inr k) \<or> (\<exists>e. get_integer_digits v = Inl e)"
  by (cases "get_integer_digits v") auto

lemma example_digits:
  "digit_count_of (Finite (25 / 2)) 2"
  "digit_count_of (Finite (8219069319951155 / 1125899906842624)) 1"
  "digit_count_of (Finite (3521955646092083 / 35184372088832)) 3"
  "digit_count_of (Finite (5010254585449677 / 562949953421312)) 1"
  "digit_count_of (Finite (2406611050876109 / 70368744177664)) 2"
  "digit_count_of (Finite (3989907794873549 / 70368744177664)) 2"
  "digit_count_of (Finite (2776046957808845 / 35184372088832)) 2"
  by simp_all

subsection \<open>Running the script\<close>

lemma io_bind_lift_Inr: "io_bind (io_lift (Inr x)) f = f x"
  by (cases "f x") (auto simp: io_bind_def io_lift_def)

lemma io_bind_lift_Inl: "io_bind (io_lift (Inl e)) f = Some ([], Inl e)"
  by (simp add: io_bind_def io_lift_def)

lemma io_bind_emit:
  "io_bind (io_emit e) f = (case f () of None \<Rightarrow> None | Some (t, y) \<Rightarrow> Some (e # t, y))"
  by (cases "f ()") (auto simp: io_bind_def io_emit_def)

lemma io_bind_nil: "io_bind (Some ([], Inr x)) f = f x"
  by (cases "f x") (auto simp: io_bind_def)

lemma main_validated:
  assumes "start_x \<noteq> []" "start_y \<noteq> []" "end_x \<noteq> []" "end_y \<noteq> []"
    and "py_float col start_x = Some v1" "py_float col start_y = Some v2"
    and "py_float col end_x = Some v3" "py_float col end_y = Some v4"
  shows "main col (Some b) start_x start_y end_x end_y =
     io_bind (io_lift (get_integer_digits v1)) (\<lambda>x_digits.
     io_bind (io_lift (get_integer_digits v2)) (\<lambda>y_digits.
     io_bind (io_lift (get_integer_digits v3)) (\<lambda>end_x_digits.
     io_bind (io_lift (get_integer_digits v4)) (\<lambda>end_y_digits.
       if x_digits = y_digits \<and> y_digits = end_x_digits \<and> end_x_digits = end_y_digits
       then process col b v1 v2 v3 v4
       else io_emit StErrorDigits))))"
  using assms by (simp add: main_def is_valid_coordinate_def io_bind_nil cong del: if_weak_cong)

lemma line_lengths: "line r0 c0 r1 c1 = Some (rr, cc) \<Longrightarrow> length rr = length cc"
  by (auto simp: line_eq)

lemma getitem2_fails_outside_wrapped:
  assumes "length rr = length cc" and "\<exists>p \<in> set (zip rr cc). \<not> in_wrapped a p"
  shows "getitem2 a rr cc = Inl IndexError"
  using assms by (simp add: getitem2_zip take_points_fail)

lemma io_try_raise:
  "io_try (Some (t, Inl e)) (\<lambda>e. io_emit (h e)) = Some (t @ [h e], Inr ())"
  by (simp add: io_try_def io_emit_def)

lemma process_sampling_failure:
  assumes fl: "format_length col sx sy ex ey = Inr txt"
    and rd: "rasterio_read col b = Inr (a, t)"
    and rc0: "rowcol col t sx sy = Inr rc0" and rc1: "rowcol col t ex ey = Inr rc1"
    and px0: "round_pixel rc0 = Inr p0" and px1: "round_pixel rc1 = Inr p1"
    and path: "line (fst p0) (snd p0) (fst p1) (snd p1) = Some (rr, cc)"
    and out: "\<exists>p \<in> set (zip rr cc). \<not> in_wrapped a p"
  shows "extract_cross_section a p0 p1 = Some (Inl IndexError)
     \<and> process col b sx sy ex ey =
         Some ([StWriteLength txt, CreateTemp TifTemp, RasterioOpen TifTemp, StPyplotDem,
                StWritePixel ''Start Pixel'' p0, StWritePixel ''End Pixel'' p1,
                StErrorProcessing IndexError], Inr ())"
proof -
  have g: "getitem2 a rr cc = Inl IndexError"
    using line_lengths [OF path] out by (rule getitem2_fails_outside_wrapped)
  have e: "extract_cross_section a p0 p1 = Some (Inl IndexError)"
    by (simp add: extract_cross_section_def path g)
  have m: "map_option (Pair []) (extract_cross_section a p0 p1) = io_lift (Inl IndexError)"
    by (simp add: e io_lift_def)
  have tb: "try_body col b sx sy ex ey =
      Some ([RasterioOpen TifTemp, StPyplotDem, StWritePixel ''Start Pixel'' p0,
             StWritePixel ''End Pixel'' p1], Inl IndexError)"
    unfolding try_body_def
    by (simp add: rd rc0 rc1 px0 px1 m io_bind_emit io_bind_lift_Inr io_bind_lift_Inl)
  have "process col b sx sy ex ey =
         Some ([StWriteLength txt, CreateTemp TifTemp, RasterioOpen TifTemp, StPyplotDem,
                StWritePixel ''Start Pixel'' p0, StWritePixel ''End Pixel'' p1,
                StErrorProcessing IndexError], Inr ())"
    unfolding process_def
    by (simp add: fl tb io_bind_emit io_bind_lift_Inr io_try_raise)
  with e show ?thesis by simp
qed

lemma example_run:
  "main example_collaborators (Some ()) ''5.5'' ''5.5'' ''7.5'' ''7.5'' =
     Some ([StWriteLength ''2.83'', CreateTemp TifTemp, RasterioOpen TifTemp, StPyplotDem,
            StWritePixel ''Start Pixel'' (5, 5), StWritePixel ''End Pixel'' (7, 7),
            StErrorProcessing IndexError], Inr ())"
proof -
  have d: "get_integer_digits (Finite (11 / 2)) = Inr 1" "get_integer_digits (Finite (15 / 2)) = Inr 1"
    by (simp_all add: get_integer_digits_Inr)
  have m: "main example_collaborators (Some ()) ''5.5'' ''5.5'' ''7.5'' ''7.5'' =
      process example_collaborators () (Finite (11 / 2)) (Finite (11 / 2)) (Finite (15 / 2)) (Finite (15 / 2))"
    by (subst main_validated [where ?v1.0 = "Finite (11 / 2)" and ?v2.0 = "Finite (11 / 2)"
          and ?v3.0 = "Finite (15 / 2)" and ?v4.0 = "Finite (15 / 2)"])
       (simp_all add: example_collaborators_def example_float_def d io_bind_lift_Inr)
  have l: "line 5 5 7 7 = Some ([5, 6, 7], [5, 6, 7])" by code_simp
  have "process example_collaborators () (Finite (11 / 2)) (Finite (11 / 2)) (Finite (15 / 2)) (Finite (15 / 2)) =
     Some ([StWriteLength ''2.83'', CreateTemp TifTemp, RasterioOpen TifTemp, StPyplotDem,
            StWritePixel ''Start Pixel'' (5, 5), StWritePixel ''End Pixel'' (7, 7),
            StErrorProcessing IndexError], Inr ())"
    by (rule process_sampling_failure [where a = dem2x2 and t = identity_affine
          and ?rc0.0 = "(PyInt 5, PyInt 5)" and ?rc1.0 = "(PyInt 7, PyInt 7)"
          and rr = "[5, 6, 7]" and cc = "[5, 6, 7]", THEN conjunct2])
       (simp_all add: example_collaborators_def inverse_affine_def identity_affine_def
          round_pixel_def l in_wrapped_def dem2x2_def floor_eq_iff)
  with m show ?thesis by simp
qed

subsection \<open>Claims on the script\<close>

text \<open>
  Claim C7. When the four strings are not empty and all parse as floats, the script goes
  on to the processing branch exactly when the four values have the same digit count; it
  then behaves as \<open>process\<close>. Otherwise the run ends with the digit-count message alone, or
  with the exception that \<^verbatim>\<open>int\<close> raises on a NaN or an infinity, and in both cases with
  no temporary file and without opening the raster. The witness runs the two examples:
  \<open>(12.5, 7.3, 100.1, 8.9)\<close>, with digit counts \<open>(2, 1, 3, 1)\<close>, is rejected, and
  \<open>(12.5, 34.2, 56.7, 78.9)\<close>, with digit counts all 2, is accepted.
\<close>

theorem digits_gate:
  assumes ne: "start_x \<noteq> []" "start_y \<noteq> []" "end_x \<noteq> []" "end_y \<noteq> []"
    and pf: "py_float col start_x = Some v1" "py_float col start_y = Some v2"
      "py_float col end_x = Some v3" "py_float col end_y = Some v4"
  shows "((\<exists>k. digit_count_of v1 k \<and> digit_count_of v2 k \<and> digit_count_of v3 k \<and> digit_count_of v4 k)
          \<longrightarrow> main col (Some b) start_x start_y end_x end_y = process col b v1 v2 v3 v4)
       \<and> (\<not> (\<exists>k. digit_count_of v1 k \<and> digit_count_of v2 k \<and> digit_count_of v3 k \<and> digit_count_of v4 k)
          \<longrightarrow> (\<exists>r. main col (Some b) start_x start_y end_x end_y = Some r
                \<and> (r = ([StErrorDigits], Inr ()) \<or> (\<exists>e. r = ([], Inl e)))))"
proof (intro conjI impI)
  note m = main_validated [OF ne pf]
  assume "\<exists>k. digit_count_of v1 k \<and> digit_count_of v2 k \<and> digit_count_of v3 k \<and> digit_count_of v4 k"
  then obtain k where "get_integer_digits v1 = Inr k" "get_integer_digits v2 = Inr k"
    "get_integer_digits v3 = Inr k" "get_integer_digits v4 = Inr k"
    by (auto simp: get_integer_digits_Inr)
  then show "main col (Some b) start_x start_y end_x end_y = process col b v1 v2 v3 v4"
    by (simp add: m io_bind_lift_Inr)
next
  note m = main_validated [OF ne pf]
  assume no: "\<not> (\<exists>k. digit_count_of v1 k \<and> digit_count_of v2 k \<and> digit_count_of v3 k \<and> digit_count_of v4 k)"
  show "\<exists>r. main col (Some b) start_x start_y end_x end_y = Some r
                \<and> (r = ([StErrorDigits], Inr ()) \<or> (\<exists>e. r = ([], Inl e)))"
  proof (cases "get_integer_digits v1")
    case (Inl e)
    then show ?thesis by (simp add: m io_bind_lift_Inl)
  next
    case k1: (Inr k1)
    show ?thesis
    proof (cases "get_integer_digits v2")
      case (Inl e)
      then show ?thesis using k1 by (simp add: m io_bind_lift_Inl io_bind_lift_Inr)
    next
      case k2: (Inr k2)
      show ?thesis
      proof (cases "get_integer_digits v3")
        case (Inl e)
        then show ?thesis using k1 k2 by (simp add: m io_bind_lift_Inl io_bind_lift_Inr)
      next
        case k3: (Inr k3)
        show ?thesis
        proof (cases "get_integer_digits v4")
          case (Inl e)
          then show ?thesis using k1 k2 k3 by (simp add: m io_bind_lift_Inl io_bind_lift_Inr)
        next
          case k4: (Inr k4)
          have "\<not> (k1 = k2 \<and> k2 = k3 \<and> k3 = k4)"
            using no k1 k2 k3 k4 by (auto simp: get_integer_digits_Inr)
          then have "(if k1 = k2 \<and> k2 = k3 \<and> k3 = k4 then process col b v1 v2 v3 v4
               else io_emit StErrorDigits) = (io_emit StErrorDigits :: ('a, unit) io)"
            by (rule if_not_P)
          then show ?thesis unfolding m k1 k2 k3 k4 io_bind_lift_Inr
            by (simp add: io_emit_def)
        qed
      qed
    qed
  qed
qed

theorem digits_gate_witness:
  "digit_count_of (Finite (25 / 2)) 2
   \<and> digit_count_of (Finite (8219069319951155 / 1125899906842624)) 1
   \<and> digit_count_of (Finite (3521955646092083 / 35184372088832)) 3
   \<and> digit_count_of (Finite (5010254585449677 / 562949953421312)) 1
   \<and> main example_collaborators (Some ()) ''12.5'' ''7.3'' ''100.1'' ''8.9'' = Some ([StErrorDigits], Inr ())
   \<and> digit_count_of (Finite (2406611050876109 / 70368744177664)) 2
   \<and> digit_count_of (Finite (3989907794873549 / 70368744177664)) 2
   \<and> digit_count_of (Finite (2776046957808845 / 35184372088832)) 2
   \<and> main example_collaborators (Some ()) ''12.5'' ''34.2'' ''56.7'' ''78.9'' =
       process example_collaborators () (Finite (25 / 2)) (Finite (2406611050876109 / 70368744177664))
         (Finite (3989907794873549 / 70368744177664)) (Finite (2776046957808845 / 35184372088832))"
proof -
  note d = example_digits
  have f: "py_float example_collaborators ''12.5'' = Some (Finite (25 / 2))"
    "py_float example_collaborators ''7.3'' = Some (Finite (8219069319951155 / 1125899906842624))"
    "py_float example_collaborators ''100.1'' = Some (Finite (3521955646092083 / 35184372088832))"
    "py_float example_collaborators ''8.9'' = Some (Finite (5010254585449677 / 562949953421312))"
    "py_float example_collaborators ''34.2'' = Some (Finite (2406611050876109 / 70368744177664))"
    "py_float example_collaborators ''56.7'' = Some (Finite (3989907794873549 / 70368744177664))"
    "py_float example_collaborators ''78.9'' = Some (Finite (2776046957808845 / 35184372088832))"
    by (simp_all add: example_collaborators_def example_float_def)
  have acc: "main example_collaborators (Some ()) ''12.5'' ''34.2'' ''56.7'' ''78.9'' =
       process example_collaborators () (Finite (25 / 2)) (Finite (2406611050876109 / 70368744177664))
         (Finite (3989907794873549 / 70368744177664)) (Finite (2776046957808845 / 35184372088832))"
    using digits_gate [OF _ _ _ _ f(1) f(5) f(6) f(7), of "()"] d by blast
  have no: "\<not> (\<exists>k. digit_count_of (Finite (25 / 2)) k
        \<and> digit_count_of (Finite (8219069319951155 / 1125899906842624)) k
        \<and> digit_count_of (Finite (3521955646092083 / 35184372088832)) k
        \<and> digit_count_of (Finite (5010254585449677 / 562949953421312)) k)"
    using digit_count_unique [OF d(1)] digit_count_unique [OF d(2)] by fastforce
  have g: "get_integer_digits (Finite (25 / 2)) = Inr 2"
    "get_integer_digits (Finite (8219069319951155 / 1125899906842624)) = Inr 1"
    "get_integer_digits (Finite (3521955646092083 / 35184372088832)) = Inr 3"
    "get_integer_digits (Finite (5010254585449677 / 562949953421312)) = Inr 1"
    using d by (simp_all only: get_integer_digits_Inr)
  have "\<exists>r. main example_collaborators (Some ()) ''12.5'' ''7.3'' ''100.1'' ''8.9'' = Some r
      \<and> (r = ([StErrorDigits], Inr ()) \<or> (\<exists>e. r = ([], Inl e)))"
    using digits_gate [OF _ _ _ _ f(1) f(2) f(3) f(4), of "()"] no by blast
  moreover have "main example_collaborators (Some ()) ''12.5'' ''7.3'' ''100.1'' ''8.9'' =
      Some ([StErrorDigits], Inr ())"
    by (subst main_validated [OF _ _ _ _ f(1) f(2) f(3) f(4)])
       (simp_all add: g io_bind_lift_Inr io_emit_def)
  ultimately show ?thesis using d acc by simp
qed



text \<open>
  Claim C3 fails on the code. In the request below the pixels \<open>(5, 5)\<close> and \<open>(7, 7)\<close>
  are outside the 2 by 2 raster, sampling raises, the handler reports the exception, and
  the temporary copy of the upload is never unlinked: the two \<^verbatim>\<open>os.unlink\<close> calls are
  the last statements of the \<^verbatim>\<open>try\<close> body.
\<close>

theorem temp_file_left_after_exception:
  "main example_collaborators (Some ()) ''5.5'' ''5.5'' ''7.5'' ''7.5'' =
     Some ([StWriteLength ''2.83'', CreateTemp TifTemp, RasterioOpen TifTemp, StPyplotDem,
            StWritePixel ''Start Pixel'' (5, 5), StWritePixel ''End Pixel'' (7, 7),
            StErrorProcessing IndexError], Inr ())
   \<and> leftover []
        [StWriteLength ''2.83'', CreateTemp TifTemp, RasterioOpen TifTemp, StPyplotDem,
         StWritePixel ''Start Pixel'' (5, 5), StWritePixel ''End Pixel'' (7, 7),
         StErrorProcessing IndexError :: int effect] = [TifTemp]"
  by (simp add: example_run)

text \<open>
  Claim C1 fails on the code. With the identity transform the point \<open>(0.75, 0.75)\<close> has
  the fractional pixel coordinates \<open>(0.75, 0.75)\<close>, whose nearest integers are \<open>(1, 1)\<close>
  under both rounding conventions; \<^verbatim>\<open>rowcol\<close> has already applied \<^verbatim>\<open>math.floor\<close>, so
  \<^verbatim>\<open>int(round(...))\<close> receives the integers \<open>(0, 0)\<close> and returns them.
\<close>

theorem rowcol_floors:
  "inverse_affine identity_affine (3 / 4) (3 / 4) = Some (3 / 4, 3 / 4)
   \<and> rasterio_rowcol identity_affine (Finite (3 / 4)) (Finite (3 / 4)) = Inr (PyInt 0, PyInt 0)
   \<and> round_pixel (PyInt 0, PyInt 0) = Inr (0, 0)
   \<and> round_half_even (3 / 4) = 1 \<and> round (3 / 4 :: rat) = 1"
proof -
  have f: "\<lfloor>3 / 4 :: rat\<rfloor> = 0" "\<lfloor>5 / 4 :: rat\<rfloor> = 1"
    by (simp_all add: floor_eq_iff)
  have r: "round_half_even (3 / 4) = 1"
    by (simp add: round_half_even_def f)
  have h: "round (3 / 4 :: rat) = 1"
    by (simp add: round_def f)
  show ?thesis
    by (simp add: inverse_affine_def identity_affine_def round_pixel_def f r h)
qed

end
